theory Spec2Isabelle
  imports Complex_Main "HOL-Library.Word" "HOL-Library.Sublist"
begin

section \<open>Text: bytes, code points, whitespace and line splitting\<close>

text \<open>
  Python \<open>bytes\<close> are lists of 8-bit words; a Python \<open>str\<close> is a list of Unicode code
  points (natural numbers).  String literals of the source are written through
  \<open>ustr_of\<close> (text) and \<open>bytes_of\<close> (raw bytes).
\<close>

type_synonym byte = "8 word"
type_synonym ustr = "nat list"

definition ustr_of :: "string \<Rightarrow> ustr" where
  "ustr_of s = map of_char s"

definition bytes_of :: "string \<Rightarrow> byte list" where
  "bytes_of s = map of_char s"

definition CRLF :: string where
  "CRLF = [CHR 0x0D, CHR 0x0A]"

text \<open>
  \<open>data.decode('ascii', errors='replace')\<close>: every byte below 128 is its own code point,
  every other byte becomes U+FFFD.  The call cannot raise.
\<close>

definition decode_ascii_replace :: "byte list \<Rightarrow> ustr" where
  "decode_ascii_replace bs = map (\<lambda>b. if unat b < 128 then unat b else 65533) bs"

text \<open>The character class \<open>[\r\n]\<close>.\<close>

definition is_crlf :: "nat \<Rightarrow> bool" where
  "is_crlf c \<longleftrightarrow> c = 13 \<or> c = 10"

text \<open>
  The characters removed by \<open>str.strip()\<close> without argument (\<open>str.isspace\<close>):
  U+0009..U+000D, U+001C..U+0020, U+0085, U+00A0, U+1680, U+2000..U+200A, U+2028, U+2029,
  U+202F, U+205F, U+3000.
\<close>

definition py_isspace :: "nat \<Rightarrow> bool" where
  "py_isspace c \<longleftrightarrow>
     (9 \<le> c \<and> c \<le> 13) \<or> (28 \<le> c \<and> c \<le> 32) \<or> c = 133 \<or> c = 160 \<or> c = 5760 \<or>
     (8192 \<le> c \<and> c \<le> 8202) \<or> c = 8232 \<or> c = 8233 \<or> c = 8239 \<or> c = 8287 \<or> c = 12288"

definition py_strip :: "ustr \<Rightarrow> ustr" where
  "py_strip s = rev (dropWhile py_isspace (rev (dropWhile py_isspace s)))"

text \<open>
  \<open>re.split(r'[\r\n]+', s)\<close>: the pieces of \<open>s\<close> between the maximal runs of CR/LF
  characters; a run at the start or at the end of \<open>s\<close> leaves an empty first or last
  piece, and a string without CR/LF is returned as its only piece.  Reading from the
  left: an ordinary character joins the piece that starts here, the last character of a
  run closes a piece, and the other characters of a run are skipped.
\<close>

fun re_split_crlf :: "ustr \<Rightarrow> ustr list" where
  "re_split_crlf [] = [[]]"
| "re_split_crlf (c # cs) =
     (if is_crlf c then
        (if cs \<noteq> [] \<and> is_crlf (hd cs) then re_split_crlf cs else [] # re_split_crlf cs)
      else (case re_split_crlf cs of
              [] \<Rightarrow> [[c]]
            | p # ps \<Rightarrow> (c # p) # ps))"

text \<open>\<open>s.endswith(('\r', '\n'))\<close>.\<close>

definition endswith_crlf :: "ustr \<Rightarrow> bool" where
  "endswith_crlf s \<longleftrightarrow> s \<noteq> [] \<and> is_crlf (last s)"

section \<open>The link managers: framing and the frame buffer\<close>

record entry =
  data :: ustr
  timestamp :: real

text \<open>
  The framing computation that \<open>_capture_loop\<close> (discovery tool) and
  \<open>_process_received_data\<close> (logger service) share word for word: decode, append to
  \<open>partial_data\<close>, split, rebind \<open>partial_data\<close>, and select the lines of \<open>lines[:-1]\<close>
  whose \<open>strip()\<close> is non-empty, stripped.  The result is the rebound \<open>partial_data\<close>
  and the frame texts in the order in which the \<open>for\<close> loop appends them.
\<close>

definition frame_lines :: "ustr \<Rightarrow> byte list \<Rightarrow> ustr \<times> ustr list" where
  "frame_lines partial_data bs =
     (let partial_data1 = partial_data @ decode_ascii_replace bs;
          lines = re_split_crlf partial_data1;
          partial_data2 = (if \<not> endswith_crlf partial_data1 then last lines else [])
      in (partial_data2, map py_strip (filter (\<lambda>line. py_strip line \<noteq> []) (butlast lines))))"

text \<open>
  Each append reads the clock (\<open>datetime.now(timezone.utc)\<close>); \<open>clk i\<close> is the reading
  taken for the \<open>i\<close>-th frame appended while one chunk is processed.
\<close>

definition stamp :: "(nat \<Rightarrow> real) \<Rightarrow> ustr list \<Rightarrow> entry list" where
  "stamp clk frames = map (\<lambda>(i, l). \<lparr>data = l, timestamp = clk i\<rparr>) (enumerate 0 frames)"

definition frozen_clock :: "real \<Rightarrow> nat \<Rightarrow> real" where
  "frozen_clock t i = t"

subsection \<open>Discovery tool: \<open>Adam4571Manager\<close> of adam_scale_discovery.py\<close>

text \<open>
  One iteration of \<open>_capture_loop\<close> on a received non-empty chunk.  The state is the
  loop's local \<open>partial_data\<close> and the shared \<open>_data_buffer\<close>; the buffer is only ever
  appended to.
\<close>

definition capture_chunk :: "(nat \<Rightarrow> real) \<Rightarrow> ustr \<times> entry list \<Rightarrow> byte list \<Rightarrow> ustr \<times> entry list" where
  "capture_chunk clk st bs =
     (let (partial_data, frames) = frame_lines (fst st) bs
      in (partial_data, snd st @ stamp clk frames))"

text \<open>
  The frame texts appended by \<open>_capture_loop\<close> over successive \<open>recv\<close> results, starting
  with the carry-over \<open>partial_data\<close>: an empty read ends the loop (\<open>break\<close>).
\<close>

fun capture_frames :: "ustr \<Rightarrow> byte list list \<Rightarrow> ustr list" where
  "capture_frames partial_data [] = []"
| "capture_frames partial_data (bs # rest) =
     (if bs = [] then []
      else (let (partial_data', frames) = frame_lines partial_data bs
            in frames @ capture_frames partial_data' rest))"

subsection \<open>Logger service: \<open>Adam4571Manager\<close> of adam_scale_logger.py\<close>

text \<open>
  The body of the locked block of \<open>_process_received_data\<close>: append, then
  \<open>if len(buf) > 1000: buf = buf[-500:]\<close>.
\<close>

definition append_limited :: "entry list \<Rightarrow> entry \<Rightarrow> entry list" where
  "append_limited buf e =
     (let buf1 = buf @ [e]
      in if length buf1 > 1000 then drop (length buf1 - 500) buf1 else buf1)"

text \<open>
  \<open>_process_received_data(data, partial_data)\<close>: \<open>partial_data\<close> is a parameter, and a
  Python string is immutable, so the rebinding inside the function is local: nothing is
  returned, and the only effect is on the buffer.
\<close>

definition process_received_data :: "(nat \<Rightarrow> real) \<Rightarrow> entry list \<Rightarrow> byte list \<Rightarrow> ustr \<Rightarrow> entry list" where
  "process_received_data clk buf bs partial_data =
     (let (partial_data_local, frames) = frame_lines partial_data bs
      in foldl append_limited buf (stamp clk frames))"

text \<open>\<open>_capture_loop\<close> starts with \<open>partial_data = ""\<close>.\<close>

definition capture_loop_frames :: "byte list list \<Rightarrow> ustr list" where
  "capture_loop_frames chunks = capture_frames [] chunks"

text \<open>
  \<open>_capture_loop\<close> and \<open>_monitor_loop\<close> with the buffer: a \<open>recv\<close> result is paired with
  the clock readings taken while it is processed.  In \<open>_monitor_loop\<close> the local
  \<open>partial_data\<close> is never assigned after its initialisation to \<open>""\<close>, and an empty read
  marks the link disconnected and continues with the next iteration (which reconnects).
\<close>

fun capture_loop :: "ustr \<times> entry list \<Rightarrow> ((nat \<Rightarrow> real) \<times> byte list) list \<Rightarrow> ustr \<times> entry list" where
  "capture_loop st [] = st"
| "capture_loop st (ev # rest) =
     (if snd ev = [] then st else capture_loop (capture_chunk (fst ev) st (snd ev)) rest)"

fun monitor_loop :: "ustr \<Rightarrow> entry list \<Rightarrow> ((nat \<Rightarrow> real) \<times> byte list) list \<Rightarrow> entry list" where
  "monitor_loop partial_data buf [] = buf"
| "monitor_loop partial_data buf (ev # rest) =
     (if snd ev = [] then monitor_loop partial_data buf rest
      else monitor_loop partial_data (process_received_data (fst ev) buf (snd ev) partial_data) rest)"

text \<open>\<open>get_recent_data\<close> (the same in both programs): the result and the buffer after the call.\<close>

definition get_recent_data :: "real \<Rightarrow> real \<Rightarrow> entry list \<Rightarrow> entry list \<times> entry list" where
  "get_recent_data now max_age_seconds buf =
     (let cutoff_time = now - max_age_seconds
      in (filter (\<lambda>e. timestamp e > cutoff_time) buf, buf))"

definition clear_buffer :: "entry list \<Rightarrow> entry list" where
  "clear_buffer buf = []"

text \<open>
  The states of the two managers that their operations can reach.  Discovery tool: the
  capture thread's \<open>partial_data\<close> and the buffer; the thread processes non-empty reads,
  \<open>clear_buffer\<close> empties the buffer, and a new capture thread starts with an empty
  \<open>partial_data\<close>.  Logger service: the buffer, written only by \<open>_process_received_data\<close>,
  which \<open>_monitor_loop\<close> always calls with its never-assigned \<open>partial_data = ""\<close>.
\<close>

inductive discovery_reachable :: "ustr \<times> entry list \<Rightarrow> bool" where
  dr_init: "discovery_reachable ([], [])"
| dr_recv: "discovery_reachable st \<Longrightarrow> bs \<noteq> [] \<Longrightarrow> discovery_reachable (capture_chunk clk st bs)"
| dr_clear: "discovery_reachable st \<Longrightarrow> discovery_reachable (fst st, clear_buffer (snd st))"
| dr_restart: "discovery_reachable st \<Longrightarrow> discovery_reachable ([], snd st)"

inductive logger_reachable :: "entry list \<Rightarrow> bool" where
  lr_init: "logger_reachable []"
| lr_recv: "logger_reachable buf \<Longrightarrow> bs \<noteq> [] \<Longrightarrow> logger_reachable (process_received_data clk buf bs [])"

text \<open>What the frame-text invariant asks of one buffered text.\<close>

definition frame_ok :: "ustr \<Rightarrow> bool" where
  "frame_ok l \<longleftrightarrow> py_strip l \<noteq> [] \<and> (\<forall>c \<in> set l. \<not> is_crlf c)"

text \<open>
  Auxiliary views of \<open>frame_lines\<close> on the whole text seen so far: the frames completed
  in a text and the carry-over it leaves.
\<close>

definition frames_of :: "ustr \<Rightarrow> ustr list" where
  "frames_of s = map py_strip (filter (\<lambda>line. py_strip line \<noteq> []) (butlast (re_split_crlf s)))"

definition carry_of :: "ustr \<Rightarrow> ustr" where
  "carry_of s = (if \<not> endswith_crlf s then last (re_split_crlf s) else [])"

section \<open>Template validator\<close>

subsection \<open>Python helpers: slices, \<open>float()\<close>, \<open>str.replace\<close>\<close>

text \<open>\<open>s[a:b]\<close> with Python's treatment of negative and out-of-range bounds.\<close>

definition py_index :: "int \<Rightarrow> nat \<Rightarrow> nat" where
  "py_index i n = (if i < 0 then nat (max (i + int n) 0) else min (nat i) n)"

definition py_slice :: "ustr \<Rightarrow> int \<Rightarrow> int \<Rightarrow> ustr" where
  "py_slice s a b =
     (let lo = py_index a (length s); hi = py_index b (length s)
      in take (hi - lo) (drop lo s))"

text \<open>
  Whether \<open>float(s)\<close> returns (rather than raising \<open>ValueError\<close>), after the grammar of
  the language reference: optional sign, then \<open>inf\<close>, \<open>infinity\<close> or \<open>nan\<close> in any
  case, or a number \<open>[digitpart] "." digitpart | digitpart ["."]\<close> with an optional
  exponent, where a digitpart is digits with single underscores between them; surrounding
  whitespace is ignored.  Digits are the ASCII digits: a frame decoded as ASCII with
  replacement holds no other decimal digit.
\<close>

definition is_digit :: "nat \<Rightarrow> bool" where
  "is_digit c \<longleftrightarrow> 48 \<le> c \<and> c \<le> 57"

fun skip_digits :: "ustr \<Rightarrow> ustr" where
  "skip_digits [] = []"
| "skip_digits [c] = (if is_digit c then [] else [c])"
| "skip_digits (c # d # cs) =
     (if is_digit c then skip_digits (d # cs)
      else if c = 95 \<and> is_digit d then skip_digits (d # cs)
      else c # d # cs)"

definition digitpart :: "ustr \<Rightarrow> ustr option" where
  "digitpart s = (case s of [] \<Rightarrow> None | c # cs \<Rightarrow> if is_digit c then Some (skip_digits cs) else None)"

definition float_number :: "ustr \<Rightarrow> ustr option" where
  "float_number s =
     (case s of
        [] \<Rightarrow> None
      | c # cs \<Rightarrow>
          if c = 46 then digitpart cs
          else (case digitpart s of
                  None \<Rightarrow> None
                | Some r \<Rightarrow>
                    (case r of
                       [] \<Rightarrow> Some []
                     | d # ds \<Rightarrow>
                         if d = 46 then (case digitpart ds of None \<Rightarrow> Some ds | Some r' \<Rightarrow> Some r')
                         else Some r)))"

definition float_exponent :: "ustr \<Rightarrow> ustr option" where
  "float_exponent r =
     (case r of
        [] \<Rightarrow> Some []
      | c # cs \<Rightarrow>
          if c = 101 \<or> c = 69 then
            (case cs of
               [] \<Rightarrow> None
             | d # ds \<Rightarrow> if d = 43 \<or> d = 45 then digitpart ds else digitpart cs)
          else Some r)"

definition ascii_lower :: "nat \<Rightarrow> nat" where
  "ascii_lower c = (if 65 \<le> c \<and> c \<le> 90 then c + 32 else c)"

definition py_float_ok :: "ustr \<Rightarrow> bool" where
  "py_float_ok s =
     (let t = py_strip s;
          u = (case t of [] \<Rightarrow> [] | c # cs \<Rightarrow> if c = 43 \<or> c = 45 then cs else t);
          w = map ascii_lower u
      in w = ustr_of ''inf'' \<or> w = ustr_of ''infinity'' \<or> w = ustr_of ''nan'' \<or>
         (case float_number u of None \<Rightarrow> False | Some r \<Rightarrow> float_exponent r = Some []))"

text \<open>
  \<open>s.replace('\\' + l, r)\<close> for a letter \<open>l\<close>: every occurrence of backslash followed by
  \<open>l\<close>, scanning from the left, becomes the single character \<open>r\<close>.
\<close>

fun replace_escape :: "nat \<Rightarrow> nat \<Rightarrow> ustr \<Rightarrow> ustr" where
  "replace_escape l r (a # b # cs) =
     (if a = 92 \<and> b = l then r # replace_escape l r cs else a # replace_escape l r (b # cs))"
| "replace_escape l r cs = cs"

subsection \<open>Templates as loaded from JSON documents\<close>

text \<open>
  A field dictionary has the keys of the \<open>ProtocolField\<close> dataclass; the key \<open>values\<close> may
  be missing, or be \<open>null\<close> (as \<open>asdict\<close> writes it for a field without table), or hold
  the lookup table.
\<close>

datatype lookup_values = ValuesAbsent | ValuesNull | ValuesDict "ustr \<rightharpoonup> ustr"

record field_dict =
  fd_name :: ustr
  fd_start :: int
  fd_length :: int
  fd_field_type :: ustr
  fd_values :: lookup_values

record template_dict =
  td_template_id :: "ustr option"
  td_name :: "ustr option"
  td_delimiter :: "ustr option"
  td_fields :: "field_dict list option"

text \<open>
  A parsed value: the \<open>float\<close> read from a numeric field (kept as the text it was read
  from) or a string.
\<close>

datatype parsed_value = FloatOf ustr | StrVal ustr

text \<open>
  The failures of \<open>_parse_with_template\<close>: its two own error returns, and an exception
  caught by its handler (a \<open>null\<close> lookup table makes \<open>field_data in field_values\<close> raise
  \<open>TypeError\<close>).  The first carries the field name of the message
  \<open>Data too short for field ...\<close>, the second the field name and the slice of
  \<open>Non-numeric data in field ...: '...'\<close>.
\<close>

datatype parse_error = DataTooShort ustr | NonNumeric ustr ustr | CaughtTypeError

datatype parse_result = ParseSuccess "ustr \<rightharpoonup> parsed_value" | ParseFailure parse_error

text \<open>The \<open>for field in template_fields\<close> loop, with \<open>parsed_data\<close> as accumulator.\<close>

fun parse_fields :: "ustr \<Rightarrow> field_dict list \<Rightarrow> (ustr \<rightharpoonup> parsed_value) \<Rightarrow> parse_result" where
  "parse_fields raw_data [] parsed_data = ParseSuccess parsed_data"
| "parse_fields raw_data (field # rest) parsed_data =
     (let field_name = fd_name field;
          start_pos = fd_start field;
          len = fd_length field;
          field_type = fd_field_type field
      in if start_pos + len \<le> int (length raw_data) then
           (let field_data = py_slice raw_data start_pos (start_pos + len)
            in if field_type = ustr_of ''numeric'' then
                 (if py_float_ok (py_strip field_data)
                  then parse_fields raw_data rest (parsed_data(field_name \<mapsto> FloatOf (py_strip field_data)))
                  else ParseFailure (NonNumeric field_name field_data))
               else if field_type = ustr_of ''lookup'' then
                 (case fd_values field of
                    ValuesNull \<Rightarrow> ParseFailure CaughtTypeError
                  | ValuesAbsent \<Rightarrow>
                      parse_fields raw_data rest
                        (parsed_data(field_name \<mapsto> StrVal (ustr_of ''unknown_'' @ field_data)))
                  | ValuesDict field_values \<Rightarrow>
                      (case field_values field_data of
                         Some v \<Rightarrow> parse_fields raw_data rest (parsed_data(field_name \<mapsto> StrVal v))
                       | None \<Rightarrow>
                           parse_fields raw_data rest
                             (parsed_data(field_name \<mapsto> StrVal (ustr_of ''unknown_'' @ field_data)))))
               else parse_fields raw_data rest (parsed_data(field_name \<mapsto> StrVal field_data)))
         else ParseFailure (DataTooShort field_name))"

definition parse_with_template :: "ustr \<Rightarrow> field_dict list \<Rightarrow> parse_result" where
  "parse_with_template raw_data template_fields = parse_fields raw_data template_fields Map.empty"

subsection \<open>Scoring a sample\<close>

text \<open>
  Python floats are modelled by real numbers: the scores are computed in exact
  arithmetic.
\<close>

definition check_data_consistency :: "entry list \<Rightarrow> field_dict list \<Rightarrow> real" where
  "check_data_consistency test_data template_fields =
     (if length test_data < 2 then 50
      else (let lengths = map (\<lambda>e. real (length (data e))) test_data;
                avg_length = sum_list lengths / real (length lengths);
                length_variance = sum_list (map (\<lambda>l. (l - avg_length)\<^sup>2) lengths) / real (length lengths)
            in if length_variance < 2 then 90
               else if length_variance < 10 then 70
               else 30))"

text \<open>
  \<open>template_data.get('delimiter', '\\r\\n').replace('\\r', '\r').replace('\\n', '\n')\<close>:
  the default is the four characters backslash, r, backslash, n.
\<close>

definition escaped_crlf :: ustr where
  "escaped_crlf = [92, 114, 92, 110]"

definition template_delimiter :: "template_dict \<Rightarrow> ustr" where
  "template_delimiter template_data =
     replace_escape 110 10
       (replace_escape 114 13
          (case td_delimiter template_data of None \<Rightarrow> escaped_crlf | Some d \<Rightarrow> d))"

definition check_format_characteristics :: "entry list \<Rightarrow> template_dict \<Rightarrow> real" where
  "check_format_characteristics test_data template_data =
     (let delimiter = template_delimiter template_data;
          delimiter_matches =
            length (filter (\<lambda>e. sublist (py_strip delimiter) (data e) \<or> length (py_strip (data e)) > 0)
                      test_data)
      in if length test_data = 0 then 0
         else real delimiter_matches / real (length test_data) * 100)"

text \<open>
  The counting loop of \<open>_analyze_template_match\<close>; its state is
  \<open>(successful_parses, total_attempts, parsing_errors)\<close>.
\<close>

fun count_parses :: "field_dict list \<Rightarrow> entry list \<Rightarrow> nat \<times> nat \<times> parse_error list \<Rightarrow> nat \<times> nat \<times> parse_error list" where
  "count_parses template_fields [] acc = acc"
| "count_parses template_fields (data_entry # rest) (successful_parses, total_attempts, parsing_errors) =
     (case parse_with_template (data data_entry) template_fields of
        ParseSuccess parsed_data \<Rightarrow>
          count_parses template_fields rest (successful_parses + 1, total_attempts + 1, parsing_errors)
      | ParseFailure err \<Rightarrow>
          count_parses template_fields rest (successful_parses, total_attempts + 1, parsing_errors @ [err]))"

definition weighted_confidence :: "real \<Rightarrow> real \<Rightarrow> real \<Rightarrow> real" where
  "weighted_confidence parse_success_rate data_consistency format_match =
     parse_success_rate * 0.6 + data_consistency * 0.2 + format_match * 0.2"

record match_result =
  success :: bool
  confidence :: real
  successful_parses :: nat
  total_attempts :: nat
  parsing_errors :: "parse_error list"
  template_id :: "ustr option"
  template_name :: "ustr option"

definition parse_success_rate :: "nat \<Rightarrow> nat \<Rightarrow> real" where
  "parse_success_rate successful attempts = real successful / real attempts * 100"

definition analyze_template_match :: "template_dict \<Rightarrow> entry list \<Rightarrow> match_result" where
  "analyze_template_match template_data test_data =
     (let template_fields = (case td_fields template_data of None \<Rightarrow> [] | Some fs \<Rightarrow> fs);
          (successful, attempts, errors) = count_parses template_fields test_data (0, 0, []);
          conf = (if attempts = 0 then 0
                  else weighted_confidence
                         (parse_success_rate successful attempts)
                         (check_data_consistency test_data template_fields)
                         (check_format_characteristics test_data template_data))
      in \<lparr>success = True, confidence = conf, successful_parses = successful,
          total_attempts = attempts, parsing_errors = take 5 errors,
          template_id = td_template_id template_data, template_name = td_name template_data\<rparr>)"

subsection \<open>\<open>test_template\<close>\<close>

text \<open>
  The link as \<open>test_template\<close> sees it.  \<open>connect\<close> and \<open>start_data_capture\<close> take the
  outcome of the socket connection they may attempt.
\<close>

record link =
  connected :: bool
  running :: bool
  data_buffer :: "entry list"

definition connect :: "bool \<Rightarrow> link \<Rightarrow> bool \<times> link" where
  "connect ok l = (if ok then (True, l\<lparr>connected := True\<rparr>) else (False, l\<lparr>connected := False\<rparr>))"

definition start_data_capture :: "bool \<Rightarrow> link \<Rightarrow> bool \<times> link" where
  "start_data_capture ok l =
     (if \<not> connected l then
        (case connect ok l of
           (False, l') \<Rightarrow> (False, l')
         | (True, l') \<Rightarrow> (True, l'\<lparr>running := True\<rparr>))
      else (True, l\<lparr>running := True\<rparr>))"

text \<open>
  The result dictionary of \<open>test_template\<close>: an early failure with its \<open>confidence\<close> and
  \<open>error\<close>, or the analysis.
\<close>

datatype test_result = TestFailure real ustr | TestAnalysis match_result

fun result_success :: "test_result \<Rightarrow> bool" where
  "result_success (TestFailure c e) = False"
| "result_success (TestAnalysis r) = success r"

fun result_confidence :: "test_result \<Rightarrow> real" where
  "result_confidence (TestFailure c e) = c"
| "result_confidence (TestAnalysis r) = confidence r"

text \<open>
  \<open>test_template\<close>.  The environment is explicit: \<open>ok1\<close> and \<open>ok2\<close> are the outcomes of the
  connection attempts that the call and \<open>start_data_capture\<close> may make, \<open>captured\<close> is what
  the capture thread has put into the cleared buffer when \<open>time.sleep(test_duration)\<close>
  ends, and \<open>now\<close> is the clock read by \<open>get_recent_data\<close>.
\<close>

definition test_template ::
  "bool \<Rightarrow> bool \<Rightarrow> entry list \<Rightarrow> real \<Rightarrow> link \<Rightarrow> template_dict \<Rightarrow> real \<Rightarrow> test_result" where
  "test_template ok1 ok2 captured now l template_data test_duration =
     (let (c, l1) = (if \<not> connected l then connect ok1 l else (True, l))
      in if \<not> c then TestFailure 0 (ustr_of ''Connection failed'')
         else (let (started, l2) = start_data_capture ok2 l1
               in if \<not> started then TestFailure 0 (ustr_of ''Data capture failed'')
                  else (let l3 = l2\<lparr>data_buffer := clear_buffer (data_buffer l2)\<rparr>;
                            l4 = l3\<lparr>data_buffer := data_buffer l3 @ captured\<rparr>;
                            test_data = fst (get_recent_data now (test_duration + 1) (data_buffer l4))
                        in if test_data = [] then TestFailure 0 (ustr_of ''No data received'')
                           else TestAnalysis (analyze_template_match template_data test_data))))"

section \<open>Discovery engine: synthesis of a template\<close>

record discovery_step =
  step_number :: int
  action :: ustr
  expected_weight :: "real option"
  captured_data :: "ustr list"
  step_timestamp :: real

record protocol_field =
  pf_name :: ustr
  pf_start :: int
  pf_length :: int
  pf_field_type :: ustr
  pf_decimal_places :: "int option"
  pf_values :: "(ustr \<rightharpoonup> ustr) option"

record protocol_template =
  pt_template_id :: ustr
  pt_name :: ustr
  pt_description :: ustr
  pt_delimiter :: ustr
  pt_encoding :: ustr
  pt_fields :: "protocol_field list"
  pt_confidence_score :: real
  pt_discovery_date :: real

text \<open>\<open>str(n)\<close> for an integer.\<close>

fun str_nat :: "nat \<Rightarrow> ustr" where
  "str_nat n = (if n < 10 then [48 + n] else str_nat (n div 10) @ [48 + n mod 10])"

declare str_nat.simps [simp del]

definition str_int :: "int \<Rightarrow> ustr" where
  "str_int i = (if i < 0 then 45 # str_nat (nat (- i)) else str_nat (nat i))"

datatype py_error = IndexError

text \<open>
  \<open>_analyze_and_create_template\<close>.  The engine's state is \<open>discovery_steps\<close> and
  \<open>confidence_scores\<close>; the three clock readings are \<open>int(time.time())\<close>, the formatted
  local time and the UTC time.  \<open>self.discovery_steps[0]\<close> raises \<open>IndexError\<close> on an
  empty list.
\<close>

definition analyze_and_create_template ::
  "discovery_step list \<Rightarrow> (ustr \<rightharpoonup> real) \<Rightarrow> int \<Rightarrow> ustr \<Rightarrow> real \<Rightarrow> py_error + protocol_template option" where
  "analyze_and_create_template discovery_steps confidence_scores time_now date_text utc_now =
     (case discovery_steps of
        [] \<Rightarrow> Inl IndexError
      | step0 # later_steps \<Rightarrow>
          (let sample_data = captured_data step0
           in if sample_data = [] then Inr None
              else Inr (Some
                \<lparr>pt_template_id = ustr_of ''discovered_'' @ str_int time_now,
                 pt_name = ustr_of ''Auto-Discovered Scale Protocol'',
                 pt_description = ustr_of ''Discovered on '' @ date_text,
                 pt_delimiter = escaped_crlf,
                 pt_encoding = ustr_of ''ASCII'',
                 pt_fields =
                   [\<lparr>pf_name = ustr_of ''weight'',
                     pf_start = 0,
                     pf_length = (if sample_data \<noteq> [] then int (length (hd sample_data)) else 10),
                     pf_field_type = ustr_of ''numeric'',
                     pf_decimal_places = Some 2,
                     pf_values = None\<rparr>],
                 pt_confidence_score = (case confidence_scores (ustr_of ''overall'') of None \<Rightarrow> 0 | Some v \<Rightarrow> v),
                 pt_discovery_date = utc_now\<rparr>)))"

text \<open>
  \<open>_finalize_discovery\<close>: whether the session succeeds, and the template handed to
  \<open>_save_template\<close>.
\<close>

definition finalize_discovery ::
  "discovery_step list \<Rightarrow> (ustr \<rightharpoonup> real) \<Rightarrow> int \<Rightarrow> ustr \<Rightarrow> real \<Rightarrow> py_error + bool \<times> protocol_template option" where
  "finalize_discovery discovery_steps confidence_scores time_now date_text utc_now =
     (if discovery_steps = [] then Inr (False, None)
      else (case analyze_and_create_template discovery_steps confidence_scores time_now date_text utc_now of
              Inl e \<Rightarrow> Inl e
            | Inr None \<Rightarrow> Inr (False, None)
            | Inr (Some template) \<Rightarrow> Inr (True, Some template)))"

section \<open>Properties of framing: chunk boundaries\<close>

lemma frame_lines_eq:
  "frame_lines p bs = (carry_of (p @ decode_ascii_replace bs), frames_of (p @ decode_ascii_replace bs))"
  by (simp add: frame_lines_def carry_of_def frames_of_def Let_def)

lemma re_split_crlf_nonempty [simp]: "re_split_crlf s \<noteq> []"
  by (induction s) (auto split: list.splits)

lemma re_split_crlf_Cons:
  "re_split_crlf (c # cs) =
     (if is_crlf c then
        (if cs \<noteq> [] \<and> is_crlf (hd cs) then re_split_crlf cs else [] # re_split_crlf cs)
      else (c # hd (re_split_crlf cs)) # tl (re_split_crlf cs))"
  by (cases "re_split_crlf cs") auto

text \<open>
  The pieces, read as the regular expression does: the text before the first run of
  CR/LF, then the pieces of what follows that run.
\<close>

lemma re_split_crlf_runs:
  "re_split_crlf s =
     takeWhile (\<lambda>c. \<not> is_crlf c) s #
     (case dropWhile (\<lambda>c. \<not> is_crlf c) s of
        [] \<Rightarrow> []
      | r # rs \<Rightarrow> re_split_crlf (dropWhile is_crlf (r # rs)))"
proof (induction s)
  case Nil
  show ?case by simp
next
  case (Cons a s)
  show ?case
  proof (cases "is_crlf a")
    case False
    from Cons.IH
    have "hd (re_split_crlf s) = takeWhile (\<lambda>c. \<not> is_crlf c) s \<and>
          tl (re_split_crlf s) =
            (case dropWhile (\<lambda>c. \<not> is_crlf c) s of
               [] \<Rightarrow> []
             | r # rs \<Rightarrow> re_split_crlf (dropWhile is_crlf (r # rs)))"
      by (metis list.sel(1) list.sel(3))
    with False show ?thesis
      by (simp del: re_split_crlf.simps add: re_split_crlf_Cons)
  next
    case True
    show ?thesis
    proof (cases "s \<noteq> [] \<and> is_crlf (hd s)")
      case False
      with True have "dropWhile is_crlf s = s" by (cases s) auto
      with True False show ?thesis by auto
    next
      case run: True
      then obtain b t where s: "s = b # t" and b: "is_crlf b" by (cases s) auto
      from Cons.IH b have "re_split_crlf s = [] # re_split_crlf (dropWhile is_crlf s)"
        unfolding s by simp
      with True run show ?thesis by (simp del: re_split_crlf.simps add: re_split_crlf_Cons)
    qed
  qed
qed

lemma re_split_crlf_examples:
  "re_split_crlf [] = [[]]"
  "re_split_crlf (ustr_of ''a'' @ [13, 10] @ ustr_of ''b'') = [ustr_of ''a'', ustr_of ''b'']"
  "re_split_crlf (ustr_of ''a'' @ [13, 10]) = [ustr_of ''a'', []]"
  "re_split_crlf ([10, 13, 10] @ ustr_of ''a'') = [[], ustr_of ''a'']"
  "re_split_crlf [13] = [[], []]"
  by (simp_all add: ustr_of_def is_crlf_def)

lemma snoc_piece:
  assumes "r \<noteq> []"
  shows "(a # hd (butlast r @ [last r @ [c]])) # tl (butlast r @ [last r @ [c]])
         = butlast ((a # hd r) # tl r) @ [last ((a # hd r) # tl r) @ [c]]"
proof (cases r)
  case Nil
  with assms show ?thesis by simp
next
  case (Cons p ps)
  then show ?thesis by (cases ps) auto
qed

lemma re_split_crlf_snoc:
  "re_split_crlf (s @ [c]) =
     (if is_crlf c then
        (if s \<noteq> [] \<and> is_crlf (last s) then re_split_crlf s else re_split_crlf s @ [[]])
      else butlast (re_split_crlf s) @ [last (re_split_crlf s) @ [c]])"
proof (induction s)
  case Nil
  then show ?case by simp
next
  case (Cons a s)
  show ?case
  proof (cases "s = []")
    case True
    then show ?thesis by simp
  next
    case False
    then have hd_eq: "hd (s @ [c]) = hd s" and last_eq: "last (a # s) = last s"
      by simp_all
    have unfold: "re_split_crlf ((a # s) @ [c]) =
      (if is_crlf a then
        (if is_crlf (hd s) then re_split_crlf (s @ [c]) else [] # re_split_crlf (s @ [c]))
      else (a # hd (re_split_crlf (s @ [c]))) # tl (re_split_crlf (s @ [c])))"
      using hd_eq by (simp del: re_split_crlf.simps add: re_split_crlf_Cons)
    have unfold2: "re_split_crlf (a # s) =
      (if is_crlf a then
        (if is_crlf (hd s) then re_split_crlf s else [] # re_split_crlf s)
      else (a # hd (re_split_crlf s)) # tl (re_split_crlf s))"
      using False by (simp del: re_split_crlf.simps add: re_split_crlf_Cons)
    show ?thesis
      unfolding unfold unfolding Cons.IH unfolding unfold2 last_eq
      using False snoc_piece [of "re_split_crlf s" a c]
      by (simp del: re_split_crlf.simps add: butlast_append)
  qed
qed

lemma py_strip_Nil [simp]: "py_strip [] = []"
  by (simp add: py_strip_def)

lemma last_re_split_crlf_endswith:
  "endswith_crlf s \<Longrightarrow> last (re_split_crlf s) = []"
proof (induction s rule: rev_induct)
  case Nil
  then show ?case by (simp add: endswith_crlf_def)
next
  case (snoc c t)
  then have c: "is_crlf c" by (simp add: endswith_crlf_def)
  show ?case
  proof (cases "endswith_crlf t")
    case True
    with c snoc.IH show ?thesis
      by (simp del: re_split_crlf.simps add: re_split_crlf_snoc endswith_crlf_def)
  next
    case False
    with c show ?thesis
      by (auto simp del: re_split_crlf.simps simp add: re_split_crlf_snoc endswith_crlf_def)
  qed
qed

lemma carry_of_last: "carry_of s = last (re_split_crlf s)"
  by (simp add: carry_of_def last_re_split_crlf_endswith)

lemma carry_of_Nil [simp]: "carry_of [] = []"
  by (simp add: carry_of_def)

lemma frames_of_Nil [simp]: "frames_of [] = []"
  by (simp add: frames_of_def)

lemma carry_of_snoc:
  "carry_of (s @ [c]) = (if is_crlf c then [] else carry_of s @ [c])"
  unfolding carry_of_last
  by (simp del: re_split_crlf.simps add: re_split_crlf_snoc last_re_split_crlf_endswith endswith_crlf_def)

lemma filter_butlast_last:
  "r \<noteq> [] \<Longrightarrow> filter P r = filter P (butlast r) @ (if P (last r) then [last r] else [])"
  by (induction r) auto

lemma frames_of_snoc:
  "frames_of (s @ [c]) =
     (if is_crlf c then frames_of s @ (if py_strip (carry_of s) \<noteq> [] then [py_strip (carry_of s)] else [])
      else frames_of s)"
proof (cases "is_crlf c")
  case False
  then show ?thesis
    by (simp del: re_split_crlf.simps add: frames_of_def re_split_crlf_snoc butlast_append)
next
  case True
  show ?thesis
  proof (cases "endswith_crlf s")
    case True
    with \<open>is_crlf c\<close> show ?thesis
      by (simp del: re_split_crlf.simps add: frames_of_def carry_of_def re_split_crlf_snoc endswith_crlf_def)
  next
    case False
    with \<open>is_crlf c\<close> have "re_split_crlf (s @ [c]) = re_split_crlf s @ [[]]"
      by (simp del: re_split_crlf.simps add: re_split_crlf_snoc endswith_crlf_def)
    then have "frames_of (s @ [c]) = map py_strip (filter (\<lambda>line. py_strip line \<noteq> []) (re_split_crlf s))"
      by (simp del: re_split_crlf.simps add: frames_of_def)
    also have "\<dots> = frames_of s @ (if py_strip (carry_of s) \<noteq> [] then [py_strip (carry_of s)] else [])"
      using filter_butlast_last [of "re_split_crlf s" "\<lambda>line. py_strip line \<noteq> []"]
      by (simp del: re_split_crlf.simps add: frames_of_def carry_of_last)
    finally show ?thesis using \<open>is_crlf c\<close> by simp
  qed
qed

lemma carry_of_crlf_free: "\<forall>c \<in> set (carry_of s). \<not> is_crlf c"
  by (induction s rule: rev_induct) (simp_all add: carry_of_snoc)

lemma carry_of_fixed: "\<forall>c \<in> set p. \<not> is_crlf c \<Longrightarrow> carry_of p = p"
  by (induction p rule: rev_induct) (simp_all add: carry_of_snoc)

lemma frames_of_crlf_free: "\<forall>c \<in> set p. \<not> is_crlf c \<Longrightarrow> frames_of p = []"
  by (induction p rule: rev_induct) (simp_all add: frames_of_snoc)

lemma framing_append:
  "frames_of (s @ t) = frames_of s @ frames_of (carry_of s @ t) \<and>
   carry_of (s @ t) = carry_of (carry_of s @ t)"
proof (induction t rule: rev_induct)
  case Nil
  show ?case
    using carry_of_crlf_free [of s] by (simp add: carry_of_fixed frames_of_crlf_free)
next
  case (snoc c t)
  have "frames_of ((s @ t) @ [c]) = frames_of s @ frames_of ((carry_of s @ t) @ [c])"
    unfolding frames_of_snoc using snoc by simp
  moreover have "carry_of ((s @ t) @ [c]) = carry_of ((carry_of s @ t) @ [c])"
    unfolding carry_of_snoc using snoc by simp
  ultimately show ?case by simp
qed

lemma decode_ascii_replace_append:
  "decode_ascii_replace (a @ b) = decode_ascii_replace a @ decode_ascii_replace b"
  by (simp add: decode_ascii_replace_def)

lemma capture_frames_carry:
  "[] \<notin> set chunks \<Longrightarrow>
   capture_frames (carry_of s) chunks = frames_of (carry_of s @ decode_ascii_replace (concat chunks))"
proof (induction chunks arbitrary: s)
  case Nil
  show ?case using carry_of_crlf_free [of s] by (simp add: decode_ascii_replace_def frames_of_crlf_free)
next
  case (Cons bs rest)
  let ?u = "carry_of s @ decode_ascii_replace bs"
  from Cons.prems have ne: "bs \<noteq> []" and rest: "[] \<notin> set rest" by auto
  have "capture_frames (carry_of s) (bs # rest) = frames_of ?u @ capture_frames (carry_of ?u) rest"
    using ne by (simp add: frame_lines_eq)
  also have "\<dots> = frames_of ?u @ frames_of (carry_of ?u @ decode_ascii_replace (concat rest))"
    using Cons.IH [OF rest, of ?u] by simp
  also have "\<dots> = frames_of (?u @ decode_ascii_replace (concat rest))"
    using framing_append [of ?u "decode_ascii_replace (concat rest)"] by simp
  finally show ?case by (simp add: decode_ascii_replace_append)
qed

text \<open>
  The discovery tool's \<open>_capture_loop\<close> carries the partial line from one read to the
  next, so the frames it completes do not depend on where the reads cut the byte stream.
\<close>

lemma capture_loop_single:
  "capture_loop_frames [bs] = frames_of (decode_ascii_replace bs)"
  by (cases "bs = []") (simp_all add: capture_loop_frames_def frame_lines_eq decode_ascii_replace_def)

theorem capture_loop_chunk_independent:
  assumes "[] \<notin> set chunks"
  shows "capture_loop_frames chunks = capture_loop_frames [concat chunks]"
proof -
  have "capture_loop_frames chunks = frames_of (decode_ascii_replace (concat chunks))"
    using capture_frames_carry [OF assms, of "[]"] by (simp add: capture_loop_frames_def)
  then show ?thesis by (simp only: capture_loop_single)
qed


lemma map_data_stamp [simp]: "map data (stamp clk frames) = frames"
proof -
  have "data \<circ> (\<lambda>(i, l). \<lparr>data = l, timestamp = clk i\<rparr>) = snd"
    by (auto simp: fun_eq_iff)
  then show ?thesis by (simp add: stamp_def)
qed

lemma capture_loop_frames_of_buffer:
  "map data (snd (capture_loop (p, buf) evs)) = map data buf @ capture_frames p (map snd evs)"
proof (induction evs arbitrary: p buf)
  case Nil
  show ?case by simp
next
  case (Cons ev rest)
  obtain p' fs where fl: "frame_lines p (snd ev) = (p', fs)" by (cases "frame_lines p (snd ev)")
  then have "capture_chunk (fst ev) (p, buf) (snd ev) = (p', buf @ stamp (fst ev) fs)"
    by (simp add: capture_chunk_def)
  with Cons.IH [of p' "buf @ stamp (fst ev) fs"] fl show ?case by simp
qed

lemmas text_eval = bytes_of_def ustr_of_def CRLF_def frame_lines_def decode_ascii_replace_def
  is_crlf_def py_strip_def py_isspace_def endswith_crlf_def

text \<open>
  Claim C1 (chunk-boundary independence of the framer).  The logger service's
  \<open>_monitor_loop\<close> passes its \<open>partial_data\<close> to \<open>_process_received_data\<close>, whose rebinding
  of the parameter never reaches the loop: the partial line of a read is dropped.  The
  bytes \<open>12.345\r\n\<close> give the frame \<open>12.345\<close> when they arrive in one read, and only the
  frame \<open>45\<close> when they arrive as \<open>12.3\<close> followed by \<open>45\r\n\<close>; the discovery tool's loop
  gives \<open>12.345\<close> for the same two reads.
\<close>

theorem monitor_loop_drops_carry_over:
  "map data (monitor_loop [] []
      [(frozen_clock 0, bytes_of ''12.3''), (frozen_clock 1, bytes_of (''45'' @ CRLF))]) = [ustr_of ''45'']
   \<and> map data (monitor_loop [] [] [(frozen_clock 0, bytes_of (''12.3'' @ ''45'' @ CRLF))]) = [ustr_of ''12.345'']
   \<and> map data (snd (capture_loop ([], [])
      [(frozen_clock 0, bytes_of ''12.3''), (frozen_clock 1, bytes_of (''45'' @ CRLF))])) = [ustr_of ''12.345'']"
  by (simp add: process_received_data_def capture_chunk_def append_limited_def stamp_def text_eval)

theorem capture_loop_chunk_independent_witness:
  "[] \<notin> set [bytes_of ''12.3'', bytes_of (''45'' @ CRLF)] \<and>
   capture_loop_frames [bytes_of ''12.3'', bytes_of (''45'' @ CRLF)] = [ustr_of ''12.345'']"
  using capture_loop_chunk_independent [of "[bytes_of ''12.3'', bytes_of (''45'' @ CRLF)]"]
  by (simp add: capture_loop_frames_def text_eval)

section \<open>Properties of the frame buffer\<close>

subsection \<open>Buffered frame texts\<close>

lemma re_split_crlf_pieces:
  "p \<in> set (re_split_crlf s) \<Longrightarrow> c \<in> set p \<Longrightarrow> \<not> is_crlf c"
proof (induction s arbitrary: p)
  case Nil
  then show ?case by simp
next
  case (Cons a s)
  let ?r = "re_split_crlf s"
  have r: "?r \<noteq> []" by simp
  show ?case
  proof (cases "is_crlf a")
    case True
    with Cons.prems have "p = [] \<or> p \<in> set ?r"
      by (auto simp del: re_split_crlf.simps simp add: re_split_crlf_Cons split: if_splits)
    with Cons.IH Cons.prems(2) show ?thesis by auto
  next
    case False
    with Cons.prems(1) have "p = a # hd ?r \<or> p \<in> set (tl ?r)"
      by (simp del: re_split_crlf.simps add: re_split_crlf_Cons)
    then show ?thesis
    proof
      assume "p = a # hd ?r"
      with Cons.prems(2) have "c = a \<or> c \<in> set (hd ?r)" by auto
      with False Cons.IH [of "hd ?r"] r show ?thesis by auto
    next
      assume "p \<in> set (tl ?r)"
      with r have "p \<in> set ?r" by (meson list.set_sel(2))
      with Cons.IH Cons.prems(2) show ?thesis by blast
    qed
  qed
qed

lemma set_py_strip: "set (py_strip l) \<subseteq> set l"
proof -
  have "set (py_strip l) \<subseteq> set (dropWhile py_isspace l)"
    unfolding py_strip_def using set_dropWhileD by fastforce
  also have "\<dots> \<subseteq> set l" using set_dropWhileD by fastforce
  finally show ?thesis .
qed

lemma py_strip_idem: "py_strip (py_strip l) = py_strip l"
proof -
  define a where "a = dropWhile py_isspace l"
  define b where "b = dropWhile py_isspace (rev a)"
  have t: "py_strip l = rev b" by (simp add: py_strip_def a_def b_def)
  have "dropWhile py_isspace (rev b) = rev b"
  proof (cases "b = []")
    case True
    then show ?thesis by simp
  next
    case False
    then have "rev a \<noteq> []" by (auto simp: b_def)
    then have a: "a \<noteq> []" by simp
    obtain u where u: "rev a = u @ b"
      unfolding b_def by (metis takeWhile_dropWhile_id)
    from False u have "last b = last (rev a)" by simp
    also have "\<dots> = hd a" using a by (simp add: last_rev)
    finally have "last b = hd a" .
    moreover have "\<not> py_isspace (hd a)"
      using a unfolding a_def by (rule hd_dropWhile)
    ultimately have "\<not> py_isspace (hd (rev b))" using False by (simp add: hd_rev)
    then show ?thesis by (simp add: dropWhile_eq_self_iff)
  qed
  moreover have "dropWhile py_isspace b = b" by (simp add: b_def)
  ultimately have "py_strip (rev b) = rev b" by (simp add: py_strip_def [of "rev b"])
  then show ?thesis unfolding t .
qed

lemma frames_of_frame_ok: "f \<in> set (frames_of s) \<Longrightarrow> frame_ok f"
proof -
  assume "f \<in> set (frames_of s)"
  then obtain l where l: "l \<in> set (butlast (re_split_crlf s))" and ne: "py_strip l \<noteq> []"
    and f: "f = py_strip l"
    by (auto simp: frames_of_def)
  from l have "l \<in> set (re_split_crlf s)" by (rule in_set_butlastD)
  then have "\<forall>c \<in> set l. \<not> is_crlf c" using re_split_crlf_pieces by blast
  with set_py_strip [of l] have "\<forall>c \<in> set f. \<not> is_crlf c" unfolding f by blast
  with ne show ?thesis by (simp add: frame_ok_def f py_strip_idem)
qed

lemma frame_lines_frame_ok: "f \<in> set (snd (frame_lines p bs)) \<Longrightarrow> frame_ok f"
  by (simp add: frame_lines_eq frames_of_frame_ok)

lemma data_stamp: "e \<in> set (stamp clk frames) \<Longrightarrow> data e \<in> set frames"
proof -
  assume "e \<in> set (stamp clk frames)"
  then have "data e \<in> data ` set (stamp clk frames)" by (rule imageI)
  then have "data e \<in> set (map data (stamp clk frames))" by (simp only: set_map)
  then show ?thesis by (simp only: map_data_stamp)
qed

lemma set_append_limited: "set (append_limited buf e) \<subseteq> insert e (set buf)"
proof -
  have "set (drop n (buf @ [e])) \<subseteq> insert e (set buf)" for n
    using set_drop_subset [of n "buf @ [e]"] by auto
  then show ?thesis by (auto simp: append_limited_def Let_def)
qed

lemma set_foldl_append_limited: "set (foldl append_limited buf es) \<subseteq> set buf \<union> set es"
proof (induction es arbitrary: buf)
  case Nil
  show ?case by simp
next
  case (Cons e es)
  from Cons.IH [of "append_limited buf e"] set_append_limited [of buf e]
  show ?case by auto
qed

lemma capture_chunk_frame_ok:
  assumes "\<forall>e \<in> set (snd st). frame_ok (data e)"
  shows "\<forall>e \<in> set (snd (capture_chunk clk st bs)). frame_ok (data e)"
proof
  fix e assume e: "e \<in> set (snd (capture_chunk clk st bs))"
  obtain p' fs where fl: "frame_lines (fst st) bs = (p', fs)" by (cases "frame_lines (fst st) bs")
  with e have "e \<in> set (snd st) \<or> e \<in> set (stamp clk fs)" by (auto simp: capture_chunk_def)
  then show "frame_ok (data e)"
  proof
    assume "e \<in> set (snd st)" with assms show ?thesis by blast
  next
    assume "e \<in> set (stamp clk fs)"
    then have "data e \<in> set fs" by (rule data_stamp)
    with fl frame_lines_frame_ok [of "data e" "fst st" bs] show ?thesis by simp
  qed
qed

lemma process_received_data_frame_ok:
  assumes "\<forall>e \<in> set buf. frame_ok (data e)"
  shows "\<forall>e \<in> set (process_received_data clk buf bs p). frame_ok (data e)"
proof
  fix e assume e: "e \<in> set (process_received_data clk buf bs p)"
  obtain p' fs where fl: "frame_lines p bs = (p', fs)" by (cases "frame_lines p bs")
  with e have "e \<in> set (foldl append_limited buf (stamp clk fs))"
    by (simp add: process_received_data_def)
  with set_foldl_append_limited have "e \<in> set buf \<or> e \<in> set (stamp clk fs)" by blast
  then show "frame_ok (data e)"
  proof
    assume "e \<in> set buf" with assms show ?thesis by blast
  next
    assume "e \<in> set (stamp clk fs)"
    then have "data e \<in> set fs" by (rule data_stamp)
    with fl frame_lines_frame_ok [of "data e" p bs] show ?thesis by simp
  qed
qed

lemma discovery_reachable_frame_ok:
  "discovery_reachable st \<Longrightarrow> \<forall>e \<in> set (snd st). frame_ok (data e)"
proof (induction rule: discovery_reachable.induct)
  case dr_init
  show ?case by simp
next
  case (dr_recv st bs clk)
  then show ?case using capture_chunk_frame_ok by blast
next
  case (dr_clear st)
  show ?case by (simp add: clear_buffer_def)
next
  case (dr_restart st)
  then show ?case by simp
qed

lemma logger_reachable_frame_ok:
  "logger_reachable buf \<Longrightarrow> \<forall>e \<in> set buf. frame_ok (data e)"
proof (induction rule: logger_reachable.induct)
  case lr_init
  show ?case by simp
next
  case (lr_recv buf bs clk)
  then show ?case using process_received_data_frame_ok by blast
qed

text \<open>
  Claim C9 (invariant of the buffered frame texts).  In every reachable state of the
  discovery tool's manager and of the logger service's manager, every buffered entry has
  a text that is non-empty after trimming and holds no carriage return and no newline.
\<close>

theorem buffered_frames_trimmed_single_line:
  "(discovery_reachable st \<longrightarrow>
      (\<forall>e \<in> set (snd st). py_strip (data e) \<noteq> [] \<and> 13 \<notin> set (data e) \<and> 10 \<notin> set (data e)))
   \<and> (logger_reachable buf \<longrightarrow>
      (\<forall>e \<in> set buf. py_strip (data e) \<noteq> [] \<and> 13 \<notin> set (data e) \<and> 10 \<notin> set (data e)))"
proof -
  have ok: "frame_ok l \<Longrightarrow> py_strip l \<noteq> [] \<and> 13 \<notin> set l \<and> 10 \<notin> set l" for l
    by (auto simp: frame_ok_def is_crlf_def)
  show ?thesis
    using discovery_reachable_frame_ok [of st] logger_reachable_frame_ok [of buf] ok by blast
qed

theorem buffered_frames_trimmed_single_line_witness:
  "discovery_reachable (capture_chunk (frozen_clock 0) ([], []) (bytes_of ('' 12.5 '' @ CRLF @ ''7'')))
   \<and> logger_reachable (process_received_data (frozen_clock 0) [] (bytes_of ('' 12.5 '' @ CRLF @ ''7'')) [])
   \<and> capture_chunk (frozen_clock 0) ([], []) (bytes_of ('' 12.5 '' @ CRLF @ ''7''))
       = (ustr_of ''7'', [\<lparr>data = ustr_of ''12.5'', timestamp = 0\<rparr>])
   \<and> process_received_data (frozen_clock 0) [] (bytes_of ('' 12.5 '' @ CRLF @ ''7'')) []
       = [\<lparr>data = ustr_of ''12.5'', timestamp = 0\<rparr>]
   \<and> py_strip (ustr_of ''12.5'') \<noteq> [] \<and> 13 \<notin> set (ustr_of ''12.5'') \<and> 10 \<notin> set (ustr_of ''12.5'')"
proof -
  let ?bs = "bytes_of ('' 12.5 '' @ CRLF @ ''7'')"
  have ne: "?bs \<noteq> []" by (simp add: bytes_of_def)
  have r1: "discovery_reachable (capture_chunk (frozen_clock 0) ([], []) ?bs)"
    by (rule dr_recv [OF dr_init ne])
  have r2: "logger_reachable (process_received_data (frozen_clock 0) [] ?bs [])"
    by (rule lr_recv [OF lr_init ne])
  have v1: "capture_chunk (frozen_clock 0) ([], []) ?bs
       = (ustr_of ''7'', [\<lparr>data = ustr_of ''12.5'', timestamp = 0\<rparr>])"
    by (simp add: capture_chunk_def stamp_def frozen_clock_def text_eval)
  have v2: "process_received_data (frozen_clock 0) [] ?bs []
       = [\<lparr>data = ustr_of ''12.5'', timestamp = 0\<rparr>]"
    by (simp add: process_received_data_def append_limited_def stamp_def frozen_clock_def text_eval)
  from buffered_frames_trimmed_single_line
    [of "capture_chunk (frozen_clock 0) ([], []) ?bs"
        "process_received_data (frozen_clock 0) [] ?bs []"] r1 r2
  have "py_strip (ustr_of ''12.5'') \<noteq> [] \<and> 13 \<notin> set (ustr_of ''12.5'') \<and> 10 \<notin> set (ustr_of ''12.5'')"
    unfolding v1 v2 by simp
  with r1 r2 v1 v2 show ?thesis by blast
qed

subsection \<open>Capacity\<close>

lemma length_append_limited:
  "length (append_limited buf e) = (if length buf \<ge> 1000 then 500 else length buf + 1)"
  by (simp add: append_limited_def Let_def)

lemma append_limited_bounded: "length buf \<le> 1000 \<Longrightarrow> length (append_limited buf e) \<le> 1000"
  by (simp add: length_append_limited)

lemma foldl_append_limited_bounded:
  "length buf \<le> 1000 \<Longrightarrow> length (foldl append_limited buf es) \<le> 1000"
  by (induction es arbitrary: buf) (simp_all add: append_limited_bounded)

lemma process_received_data_bounded:
  "length buf \<le> 1000 \<Longrightarrow> length (process_received_data clk buf bs p) \<le> 1000"
  by (simp add: process_received_data_def foldl_append_limited_bounded split: prod.splits)

lemma logger_reachable_bounded: "logger_reachable buf \<Longrightarrow> length buf \<le> 1000"
  by (induction rule: logger_reachable.induct) (simp_all add: process_received_data_bounded)

lemma length_capture_chunk:
  "length (snd (capture_chunk clk st bs)) = length (snd st) + length (snd (frame_lines (fst st) bs))"
  by (simp add: capture_chunk_def stamp_def split: prod.splits)

lemma capture_frames_replicate:
  assumes "frame_lines [] bs = ([], fs)" and "bs \<noteq> []"
  shows "capture_frames [] (replicate n bs) = concat (replicate n fs)"
  using assms by (induction n) simp_all

text \<open>
  Claim C2 as stated fails for the discovery tool, whose \<open>_capture_loop\<close> appends without
  any limit: after 1001 reads of one line each its buffer holds 1001 entries.
\<close>

theorem discovery_buffer_exceeds_capacity:
  "length (snd (capture_loop ([], []) (replicate 1001 (frozen_clock 0, bytes_of (''1'' @ CRLF))))) = 1001"
proof -
  let ?bs = "bytes_of (''1'' @ CRLF)"
  have fl: "frame_lines [] ?bs = ([], [ustr_of ''1''])" by (simp add: text_eval)
  have ne: "?bs \<noteq> []" by (simp add: bytes_of_def)
  have "length (map data (snd (capture_loop ([], []) (replicate 1001 (frozen_clock 0, ?bs)))))
        = length (capture_frames [] (replicate 1001 ?bs))"
    by (simp only: capture_loop_frames_of_buffer map_replicate snd_conv list.map append_Nil)
  also have "\<dots> = length (concat (replicate 1001 [ustr_of ''1'']))"
    by (simp only: capture_frames_replicate [OF fl ne])
  also have "\<dots> = 1001" by (simp add: length_concat sum_list_replicate)
  finally show ?thesis by simp
qed

text \<open>
  Claim C2 (buffer capacity), amended: in the logger service, whose
  \<open>_process_received_data\<close> limits the buffer, every append to a buffer of at most 1000
  entries leaves at most 1000, every reachable buffer holds at most 1000, and an append
  that makes 1001 entries keeps exactly the 500 most recent ones (the last 499 old
  entries and the new one).  The discovery tool's buffer grows by every completed frame.
\<close>

theorem logger_buffer_capacity:
  "(length buf \<le> 1000 \<longrightarrow> length (append_limited buf e) \<le> 1000)
   \<and> (logger_reachable b \<longrightarrow> length b \<le> 1000)
   \<and> (length (buf @ [e]) > 1000 \<longrightarrow>
        length (append_limited buf e) = 500 \<and>
        append_limited buf e = drop (length buf - 499) buf @ [e])
   \<and> length (snd (capture_chunk clk st bs)) = length (snd st) + length (snd (frame_lines (fst st) bs))"
proof -
  have "append_limited buf e = drop (length buf - 499) buf @ [e]" if "length (buf @ [e]) > 1000"
    using that by (simp add: append_limited_def Let_def)
  then show ?thesis
    using append_limited_bounded [of buf e] logger_reachable_bounded [of b]
      length_capture_chunk [of clk st bs]
    by (simp add: length_append_limited)
qed

theorem logger_buffer_capacity_witness:
  "length (replicate 1000 \<lparr>data = ustr_of ''1'', timestamp = 0\<rparr>) \<le> 1000
   \<and> length (replicate 1000 \<lparr>data = ustr_of ''1'', timestamp = 0\<rparr> @ [\<lparr>data = ustr_of ''2'', timestamp = 1\<rparr>]) > 1000
   \<and> logger_reachable (process_received_data (frozen_clock 0) [] (bytes_of (''1'' @ CRLF)) [])
   \<and> length (process_received_data (frozen_clock 0) [] (bytes_of (''1'' @ CRLF)) []) \<le> 1000
   \<and> length (append_limited (replicate 1000 \<lparr>data = ustr_of ''1'', timestamp = 0\<rparr>)
                \<lparr>data = ustr_of ''2'', timestamp = 1\<rparr>) = 500
   \<and> append_limited (replicate 1000 \<lparr>data = ustr_of ''1'', timestamp = 0\<rparr>) \<lparr>data = ustr_of ''2'', timestamp = 1\<rparr>
       = replicate 499 \<lparr>data = ustr_of ''1'', timestamp = 0\<rparr> @ [\<lparr>data = ustr_of ''2'', timestamp = 1\<rparr>]"
proof -
  let ?bs = "bytes_of (''1'' @ CRLF)"
  have ne: "?bs \<noteq> []" by (simp add: bytes_of_def)
  have r: "logger_reachable (process_received_data (frozen_clock 0) [] ?bs [])"
    by (rule lr_recv [OF lr_init ne])
  show ?thesis
    using r logger_buffer_capacity
      [of "replicate 1000 \<lparr>data = ustr_of ''1'', timestamp = 0\<rparr>" "\<lparr>data = ustr_of ''2'', timestamp = 1\<rparr>"
          "process_received_data (frozen_clock 0) [] ?bs []" "frozen_clock 0" "([], [])" ?bs]
    by simp
qed

subsection \<open>Reading the buffer\<close>

text \<open>
  Claim C8 (\<open>get_recent_data\<close>).  Every returned entry has a timestamp strictly greater
  than the call time minus \<open>max_age_seconds\<close>, the returned entries are exactly the
  buffered entries with that property, in the order they have in the buffer, and the
  buffer after the call is the buffer before it.
\<close>

theorem get_recent_data_recent_ordered_pure:
  "(\<forall>e \<in> set (fst (get_recent_data now max_age_seconds buf)). timestamp e > now - max_age_seconds)
   \<and> subseq (fst (get_recent_data now max_age_seconds buf)) buf
   \<and> fst (get_recent_data now max_age_seconds buf) = filter (\<lambda>e. timestamp e > now - max_age_seconds) buf
   \<and> snd (get_recent_data now max_age_seconds buf) = buf"
  by (simp add: get_recent_data_def)

theorem get_recent_data_recent_ordered_pure_witness:
  "fst (get_recent_data 10 6
         [\<lparr>data = ustr_of ''a'', timestamp = 1\<rparr>, \<lparr>data = ustr_of ''b'', timestamp = 5\<rparr>,
          \<lparr>data = ustr_of ''c'', timestamp = 4\<rparr>, \<lparr>data = ustr_of ''d'', timestamp = 9\<rparr>])
     = [\<lparr>data = ustr_of ''b'', timestamp = 5\<rparr>, \<lparr>data = ustr_of ''d'', timestamp = 9\<rparr>]
   \<and> timestamp \<lparr>data = ustr_of ''b'', timestamp = 5\<rparr> > 10 - 6
   \<and> timestamp \<lparr>data = ustr_of ''d'', timestamp = 9\<rparr> > 10 - 6
   \<and> snd (get_recent_data 10 6
         [\<lparr>data = ustr_of ''a'', timestamp = 1\<rparr>, \<lparr>data = ustr_of ''b'', timestamp = 5\<rparr>,
          \<lparr>data = ustr_of ''c'', timestamp = 4\<rparr>, \<lparr>data = ustr_of ''d'', timestamp = 9\<rparr>])
     = [\<lparr>data = ustr_of ''a'', timestamp = 1\<rparr>, \<lparr>data = ustr_of ''b'', timestamp = 5\<rparr>,
        \<lparr>data = ustr_of ''c'', timestamp = 4\<rparr>, \<lparr>data = ustr_of ''d'', timestamp = 9\<rparr>]"
  using get_recent_data_recent_ordered_pure
    [of 10 6 "[\<lparr>data = ustr_of ''a'', timestamp = 1\<rparr>, \<lparr>data = ustr_of ''b'', timestamp = 5\<rparr>,
          \<lparr>data = ustr_of ''c'', timestamp = 4\<rparr>, \<lparr>data = ustr_of ''d'', timestamp = 9\<rparr>]"]
  by simp

section \<open>Properties of the template validator\<close>

subsection \<open>Parsing one frame\<close>

lemma parse_fields_append:
  "parse_fields raw (pre @ rest) acc =
     (case parse_fields raw pre acc of
        ParseSuccess acc' \<Rightarrow> parse_fields raw rest acc'
      | ParseFailure err \<Rightarrow> ParseFailure err)"
  by (induction pre arbitrary: acc)
     (simp_all add: Let_def split: lookup_values.splits option.splits)

lemma parse_fields_too_short:
  "fd_start f + fd_length f > int (length raw) \<Longrightarrow>
   parse_fields raw (f # post) acc = ParseFailure (DataTooShort (fd_name f))"
  by (simp add: Let_def)

lemma parse_fields_fails:
  assumes "fd_start f + fd_length f > int (length raw)"
  shows "\<exists>err. parse_fields raw (pre @ f # post) acc = ParseFailure err"
  using parse_fields_too_short [OF assms]
  by (cases "parse_fields raw pre acc") (simp_all add: parse_fields_append)

lemma count_parses_failure:
  "parse_with_template raw flds = ParseFailure err \<Longrightarrow>
   count_parses flds [\<lparr>data = raw, timestamp = t\<rparr>] (s, n, errs) = (s, n + 1, errs @ [err])"
  by simp

text \<open>
  Claim C7 as stated fails on the kind of error: fields are decoded in declared order,
  and a field that fails before the over-long one decides the error.
\<close>

theorem too_short_field_after_non_numeric:
  "fd_start \<lparr>fd_name = ustr_of ''t'', fd_start = 0, fd_length = 10, fd_field_type = ustr_of ''text'',
             fd_values = ValuesAbsent\<rparr>
   + fd_length \<lparr>fd_name = ustr_of ''t'', fd_start = 0, fd_length = 10, fd_field_type = ustr_of ''text'',
             fd_values = ValuesAbsent\<rparr> > int (length (ustr_of ''abc''))
   \<and> parse_with_template (ustr_of ''abc'')
       [\<lparr>fd_name = ustr_of ''w'', fd_start = 0, fd_length = 3, fd_field_type = ustr_of ''numeric'',
         fd_values = ValuesAbsent\<rparr>,
        \<lparr>fd_name = ustr_of ''t'', fd_start = 0, fd_length = 10, fd_field_type = ustr_of ''text'',
         fd_values = ValuesAbsent\<rparr>]
     = ParseFailure (NonNumeric (ustr_of ''w'') (ustr_of ''abc''))"
  by (simp add: parse_with_template_def ustr_of_def py_slice_def py_index_def py_float_ok_def
      py_strip_def py_isspace_def float_number_def digitpart_def is_digit_def ascii_lower_def)

text \<open>
  Claim C7 (a field that runs past the frame), amended: if some field of the list has
  \<open>start + length\<close> exceeding the frame's length, \<open>_parse_with_template\<close> returns a
  failure for the whole frame, and the counting loop counts the frame as one attempt, no
  success and one error; the failure is \<open>Data too short\<close> for that field whenever the
  fields declared before it parse, and otherwise it is the very failure that the fields
  declared before it produce.
\<close>

theorem too_short_field_fails_frame:
  "fd_start f + fd_length f > int (length raw) \<Longrightarrow>
   (\<exists>err. parse_with_template raw (pre @ f # post) = ParseFailure err \<and>
          count_parses (pre @ f # post) [\<lparr>data = raw, timestamp = t\<rparr>] (s, n, errs)
            = (s, n + 1, errs @ [err]))
   \<and> (\<forall>m. parse_with_template raw pre = ParseSuccess m \<longrightarrow>
          parse_with_template raw (pre @ f # post) = ParseFailure (DataTooShort (fd_name f)))
   \<and> (\<forall>err. parse_with_template raw pre = ParseFailure err \<longrightarrow>
          parse_with_template raw (pre @ f # post) = ParseFailure err)
   \<and> parse_with_template raw (pre @ f # post)
       = ParseFailure (case parse_with_template raw pre of
                         ParseSuccess m \<Rightarrow> DataTooShort (fd_name f)
                       | ParseFailure err \<Rightarrow> err)
   \<and> count_parses (pre @ f # post) [\<lparr>data = raw, timestamp = t\<rparr>] (s, n, errs)
       = (s, n + 1, errs @ [case parse_with_template raw pre of
                              ParseSuccess m \<Rightarrow> DataTooShort (fd_name f)
                            | ParseFailure err \<Rightarrow> err])"
proof -
  assume short: "fd_start f + fd_length f > int (length raw)"
  let ?e = "case parse_with_template raw pre of
              ParseSuccess m \<Rightarrow> DataTooShort (fd_name f)
            | ParseFailure err \<Rightarrow> err"
  have ok: "parse_with_template raw (pre @ f # post) = ParseFailure (DataTooShort (fd_name f))"
    if "parse_with_template raw pre = ParseSuccess m" for m
    using that parse_fields_too_short [OF short]
    by (simp add: parse_with_template_def parse_fields_append)
  have ko: "parse_with_template raw (pre @ f # post) = ParseFailure err"
    if "parse_with_template raw pre = ParseFailure err" for err
    using that by (simp add: parse_with_template_def parse_fields_append)
  have eq: "parse_with_template raw (pre @ f # post) = ParseFailure ?e"
    using ok ko by (cases "parse_with_template raw pre") simp_all
  have cnt: "count_parses (pre @ f # post) [\<lparr>data = raw, timestamp = t\<rparr>] (s, n, errs)
       = (s, n + 1, errs @ [?e])"
    by (rule count_parses_failure [OF eq])
  from eq cnt
  have "\<exists>err. parse_with_template raw (pre @ f # post) = ParseFailure err \<and>
          count_parses (pre @ f # post) [\<lparr>data = raw, timestamp = t\<rparr>] (s, n, errs)
            = (s, n + 1, errs @ [err])"
    by blast
  with ok ko eq cnt show ?thesis by blast
qed

theorem too_short_field_fails_frame_witness:
  "fd_start \<lparr>fd_name = ustr_of ''w'', fd_start = 5, fd_length = 10, fd_field_type = ustr_of ''numeric'',
             fd_values = ValuesAbsent\<rparr>
   + fd_length \<lparr>fd_name = ustr_of ''w'', fd_start = 5, fd_length = 10, fd_field_type = ustr_of ''numeric'',
             fd_values = ValuesAbsent\<rparr> > int (length (ustr_of ''12.345kg''))
   \<and> parse_with_template (ustr_of ''12.345kg'') [] = ParseSuccess Map.empty
   \<and> parse_with_template (ustr_of ''12.345kg'')
        [\<lparr>fd_name = ustr_of ''w'', fd_start = 5, fd_length = 10, fd_field_type = ustr_of ''numeric'',
             fd_values = ValuesAbsent\<rparr>] = ParseFailure (DataTooShort (ustr_of ''w''))
   \<and> count_parses [\<lparr>fd_name = ustr_of ''w'', fd_start = 5, fd_length = 10, fd_field_type = ustr_of ''numeric'',
             fd_values = ValuesAbsent\<rparr>] [\<lparr>data = ustr_of ''12.345kg'', timestamp = 0\<rparr>] (0, 0, [])
       = (0, 1, [DataTooShort (ustr_of ''w'')])
   \<and> parse_with_template (ustr_of ''12.345kg'')
        [\<lparr>fd_name = ustr_of ''u'', fd_start = 6, fd_length = 2, fd_field_type = ustr_of ''numeric'',
          fd_values = ValuesAbsent\<rparr>]
       = ParseFailure (NonNumeric (ustr_of ''u'') (ustr_of ''kg''))
   \<and> parse_with_template (ustr_of ''12.345kg'')
        [\<lparr>fd_name = ustr_of ''u'', fd_start = 6, fd_length = 2, fd_field_type = ustr_of ''numeric'',
          fd_values = ValuesAbsent\<rparr>,
         \<lparr>fd_name = ustr_of ''w'', fd_start = 5, fd_length = 10, fd_field_type = ustr_of ''numeric'',
          fd_values = ValuesAbsent\<rparr>]
       = ParseFailure (NonNumeric (ustr_of ''u'') (ustr_of ''kg''))
   \<and> count_parses
        [\<lparr>fd_name = ustr_of ''u'', fd_start = 6, fd_length = 2, fd_field_type = ustr_of ''numeric'',
          fd_values = ValuesAbsent\<rparr>,
         \<lparr>fd_name = ustr_of ''w'', fd_start = 5, fd_length = 10, fd_field_type = ustr_of ''numeric'',
          fd_values = ValuesAbsent\<rparr>]
        [\<lparr>data = ustr_of ''12.345kg'', timestamp = 0\<rparr>] (0, 0, [])
       = (0, 1, [NonNumeric (ustr_of ''u'') (ustr_of ''kg'')])"
proof -
  let ?f = "\<lparr>fd_name = ustr_of ''w'', fd_start = 5, fd_length = 10, fd_field_type = ustr_of ''numeric'',
             fd_values = ValuesAbsent\<rparr>"
  let ?u = "\<lparr>fd_name = ustr_of ''u'', fd_start = 6, fd_length = 2, fd_field_type = ustr_of ''numeric'',
             fd_values = ValuesAbsent\<rparr>"
  have short: "fd_start ?f + fd_length ?f > int (length (ustr_of ''12.345kg''))"
    by (simp add: ustr_of_def)
  have empty: "parse_with_template (ustr_of ''12.345kg'') [] = ParseSuccess Map.empty"
    by (simp add: parse_with_template_def)
  have earlier: "parse_with_template (ustr_of ''12.345kg'') [?u]
       = ParseFailure (NonNumeric (ustr_of ''u'') (ustr_of ''kg''))"
    by (simp add: parse_with_template_def ustr_of_def py_slice_def py_index_def py_float_ok_def
        py_strip_def py_isspace_def float_number_def digitpart_def is_digit_def ascii_lower_def)
  from too_short_field_fails_frame [OF short, of "[]" "[]" 0 0 0 "[]"] empty
  have p: "parse_with_template (ustr_of ''12.345kg'') [?f] = ParseFailure (DataTooShort (ustr_of ''w''))"
    and c: "count_parses [?f] [\<lparr>data = ustr_of ''12.345kg'', timestamp = 0\<rparr>] (0, 0, [])
       = (0, 1, [DataTooShort (ustr_of ''w'')])"
    by simp_all
  from too_short_field_fails_frame [OF short, of "[?u]" "[]" 0 0 0 "[]"] earlier
  have p2: "parse_with_template (ustr_of ''12.345kg'') [?u, ?f]
       = ParseFailure (NonNumeric (ustr_of ''u'') (ustr_of ''kg''))"
    and c2: "count_parses [?u, ?f] [\<lparr>data = ustr_of ''12.345kg'', timestamp = 0\<rparr>] (0, 0, [])
       = (0, 1, [NonNumeric (ustr_of ''u'') (ustr_of ''kg'')])"
    by simp_all
  from short empty p c earlier p2 c2 show ?thesis by blast
qed

lemma count_parses_no_fields:
  "count_parses [] test_data (s, n, errs) = (s + length test_data, n + length test_data, errs)"
  by (induction test_data arbitrary: s n) (simp_all add: parse_with_template_def)

text \<open>
  Claim C10 (a template without fields).  \<open>_parse_with_template\<close> with an empty field
  list succeeds on every frame with an empty \<open>parsed_data\<close>; on a non-empty sample such a
  template has every frame counted as parsed, and a parse success rate of 100.
\<close>

theorem no_fields_always_parse:
  "parse_with_template raw [] = ParseSuccess Map.empty
   \<and> (test_data \<noteq> [] \<and> (td_fields template_data = Some [] \<or> td_fields template_data = None) \<longrightarrow>
        successful_parses (analyze_template_match template_data test_data) = length test_data
        \<and> total_attempts (analyze_template_match template_data test_data) = length test_data
        \<and> parsing_errors (analyze_template_match template_data test_data) = []
        \<and> parse_success_rate (successful_parses (analyze_template_match template_data test_data))
             (total_attempts (analyze_template_match template_data test_data)) = 100)"
  by (auto simp: parse_with_template_def analyze_template_match_def count_parses_no_fields
      parse_success_rate_def)

theorem no_fields_always_parse_witness:
  "[\<lparr>data = ustr_of ''ST,GS,  12.5kg'', timestamp = 0\<rparr>] \<noteq> []
   \<and> td_fields \<lparr>td_template_id = None, td_name = None, td_delimiter = None, td_fields = Some []\<rparr> = Some []
   \<and> successful_parses (analyze_template_match
        \<lparr>td_template_id = None, td_name = None, td_delimiter = None, td_fields = Some []\<rparr>
        [\<lparr>data = ustr_of ''ST,GS,  12.5kg'', timestamp = 0\<rparr>]) = 1
   \<and> parse_success_rate 1 1 = 100"
  using no_fields_always_parse
    [of "[]" "[\<lparr>data = ustr_of ''ST,GS,  12.5kg'', timestamp = 0\<rparr>]"
        "\<lparr>td_template_id = None, td_name = None, td_delimiter = None, td_fields = Some []\<rparr>"]
  by (simp add: parse_success_rate_def)

subsection \<open>Scores\<close>

lemma count_parses_counts:
  "fst (count_parses flds test_data (s, n, errs)) \<le> s + length test_data
   \<and> fst (snd (count_parses flds test_data (s, n, errs))) = n + length test_data"
proof (induction test_data arbitrary: s n errs)
  case Nil
  show ?case by simp
next
  case (Cons e rest)
  show ?case
  proof (cases "parse_with_template (data e) flds")
    case (ParseSuccess m)
    with Cons.IH [of "s + 1" "n + 1" errs] show ?thesis by simp
  next
    case (ParseFailure err)
    with Cons.IH [of s "n + 1" "errs @ [err]"] show ?thesis by simp
  qed
qed

lemma parse_success_rate_range:
  "s \<le> n \<Longrightarrow> 0 < n \<Longrightarrow> 0 \<le> parse_success_rate s n \<and> parse_success_rate s n \<le> 100"
  by (simp add: parse_success_rate_def divide_le_eq)

lemma check_data_consistency_range:
  "0 \<le> check_data_consistency test_data flds \<and> check_data_consistency test_data flds \<le> 100"
  by (simp add: check_data_consistency_def Let_def)

lemma check_format_characteristics_range:
  "0 \<le> check_format_characteristics test_data template_data
   \<and> check_format_characteristics test_data template_data \<le> 100"
proof -
  have "length (filter P test_data) \<le> length test_data" for P by simp
  then have "real (length (filter P test_data)) \<le> real (length test_data)" for P
    using of_nat_le_iff by blast
  then show ?thesis
    by (simp add: check_format_characteristics_def Let_def divide_le_eq)
qed

lemma weighted_confidence_range:
  assumes "0 \<le> p \<and> p \<le> 100" "0 \<le> c \<and> c \<le> 100" "0 \<le> f \<and> f \<le> 100"
  shows "0 \<le> weighted_confidence p c f \<and> weighted_confidence p c f \<le> 100"
  using assms unfolding weighted_confidence_def by linarith

lemma analyze_confidence_range:
  "0 \<le> confidence (analyze_template_match template_data test_data)
   \<and> confidence (analyze_template_match template_data test_data) \<le> 100"
proof -
  let ?flds = "case td_fields template_data of None \<Rightarrow> [] | Some fs \<Rightarrow> fs"
  obtain s n errs where c: "count_parses ?flds test_data (0, 0, []) = (s, n, errs)"
    by (metis prod_cases3)
  from count_parses_counts [of ?flds test_data 0 0 "[]"] c
  have sn: "s \<le> n" by simp
  show ?thesis
  proof (cases "n = 0")
    case True
    with c show ?thesis by (simp add: analyze_template_match_def)
  next
    case False
    with sn have "0 \<le> parse_success_rate s n \<and> parse_success_rate s n \<le> 100"
      by (simp add: parse_success_rate_range)
    from weighted_confidence_range [OF this check_data_consistency_range
        check_format_characteristics_range] c False
    show ?thesis by (simp add: analyze_template_match_def)
  qed
qed

lemma analyze_confidence_formula:
  assumes "test_data \<noteq> []"
  shows "confidence (analyze_template_match template_data test_data)
          = weighted_confidence
              (parse_success_rate (successful_parses (analyze_template_match template_data test_data))
                 (total_attempts (analyze_template_match template_data test_data)))
              (check_data_consistency test_data (case td_fields template_data of None \<Rightarrow> [] | Some fs \<Rightarrow> fs))
              (check_format_characteristics test_data template_data)"
proof -
  let ?flds = "case td_fields template_data of None \<Rightarrow> [] | Some fs \<Rightarrow> fs"
  obtain s n errs where c: "count_parses ?flds test_data (0, 0, []) = (s, n, errs)"
    by (metis prod_cases3)
  from count_parses_counts [of ?flds test_data 0 0 "[]"] c assms
  have "n \<noteq> 0" by simp
  with c show ?thesis by (simp add: analyze_template_match_def)
qed

text \<open>
  Claim C4 (range and monotonicity of the confidence).  The confidence returned by
  \<open>_analyze_template_match\<close> lies in the closed interval from 0 to 100 for every
  template and sample, and the weighted sum does not decrease when the parse success
  rate grows with the other two factors fixed; on a non-empty sample the returned
  confidence is that weighted sum of the three factors.  Floats are read as real numbers.
\<close>

theorem confidence_range_and_monotone:
  "0 \<le> confidence (analyze_template_match template_data test_data)
   \<and> confidence (analyze_template_match template_data test_data) \<le> 100
   \<and> (test_data \<noteq> [] \<longrightarrow>
        confidence (analyze_template_match template_data test_data)
          = weighted_confidence
              (parse_success_rate (successful_parses (analyze_template_match template_data test_data))
                 (total_attempts (analyze_template_match template_data test_data)))
              (check_data_consistency test_data (case td_fields template_data of None \<Rightarrow> [] | Some fs \<Rightarrow> fs))
              (check_format_characteristics test_data template_data))
   \<and> (p \<le> p' \<longrightarrow> weighted_confidence p c f \<le> weighted_confidence p' c f)"
proof -
  have "p \<le> p' \<longrightarrow> weighted_confidence p c f \<le> weighted_confidence p' c f"
    by (simp add: weighted_confidence_def)
  with analyze_confidence_range [of template_data test_data]
    analyze_confidence_formula [of test_data template_data]
  show ?thesis by blast
qed

theorem confidence_range_and_monotone_witness:
  "(50::real) \<le> 100 \<and> weighted_confidence 50 90 100 = 68 \<and> weighted_confidence 100 90 100 = 98
   \<and> weighted_confidence 50 90 100 \<le> weighted_confidence 100 90 100"
  using confidence_range_and_monotone [of "\<lparr>td_template_id = None, td_name = None, td_delimiter = None,
      td_fields = None\<rparr>" "[\<lparr>data = ustr_of ''12.5'', timestamp = 0\<rparr>]" 50 100 90 100]
  by (simp add: weighted_confidence_def)

text \<open>
  Claim C3 (scenario).  One numeric field at offset 0 of length 6 and the three frames
  \<open>12.345\r\n\<close>, \<open>12.346\r\n\<close>, \<open>12.344\r\n\<close> of eight characters each: the three
  frames parse, the parse success rate is 100, the data consistency is 90, the format
  match is 100 and the confidence is 98.  The template's other keys and the timestamps
  are arbitrary.
\<close>

theorem scenario_three_numeric_frames:
  "successful_parses (analyze_template_match
      \<lparr>td_template_id = tid, td_name = nm, td_delimiter = dl,
       td_fields = Some [\<lparr>fd_name = ustr_of ''weight'', fd_start = 0, fd_length = 6,
                         fd_field_type = ustr_of ''numeric'', fd_values = ValuesAbsent\<rparr>]\<rparr>
      [\<lparr>data = ustr_of ''12.345'' @ [13, 10], timestamp = t1\<rparr>,
       \<lparr>data = ustr_of ''12.346'' @ [13, 10], timestamp = t2\<rparr>,
       \<lparr>data = ustr_of ''12.344'' @ [13, 10], timestamp = t3\<rparr>]) = 3
   \<and> total_attempts (analyze_template_match
      \<lparr>td_template_id = tid, td_name = nm, td_delimiter = dl,
       td_fields = Some [\<lparr>fd_name = ustr_of ''weight'', fd_start = 0, fd_length = 6,
                         fd_field_type = ustr_of ''numeric'', fd_values = ValuesAbsent\<rparr>]\<rparr>
      [\<lparr>data = ustr_of ''12.345'' @ [13, 10], timestamp = t1\<rparr>,
       \<lparr>data = ustr_of ''12.346'' @ [13, 10], timestamp = t2\<rparr>,
       \<lparr>data = ustr_of ''12.344'' @ [13, 10], timestamp = t3\<rparr>]) = 3
   \<and> parse_success_rate 3 3 = 100
   \<and> check_data_consistency
      [\<lparr>data = ustr_of ''12.345'' @ [13, 10], timestamp = t1\<rparr>,
       \<lparr>data = ustr_of ''12.346'' @ [13, 10], timestamp = t2\<rparr>,
       \<lparr>data = ustr_of ''12.344'' @ [13, 10], timestamp = t3\<rparr>]
      [\<lparr>fd_name = ustr_of ''weight'', fd_start = 0, fd_length = 6,
        fd_field_type = ustr_of ''numeric'', fd_values = ValuesAbsent\<rparr>] = 90
   \<and> check_format_characteristics
      [\<lparr>data = ustr_of ''12.345'' @ [13, 10], timestamp = t1\<rparr>,
       \<lparr>data = ustr_of ''12.346'' @ [13, 10], timestamp = t2\<rparr>,
       \<lparr>data = ustr_of ''12.344'' @ [13, 10], timestamp = t3\<rparr>]
      \<lparr>td_template_id = tid, td_name = nm, td_delimiter = dl,
       td_fields = Some [\<lparr>fd_name = ustr_of ''weight'', fd_start = 0, fd_length = 6,
                         fd_field_type = ustr_of ''numeric'', fd_values = ValuesAbsent\<rparr>]\<rparr> = 100
   \<and> confidence (analyze_template_match
      \<lparr>td_template_id = tid, td_name = nm, td_delimiter = dl,
       td_fields = Some [\<lparr>fd_name = ustr_of ''weight'', fd_start = 0, fd_length = 6,
                         fd_field_type = ustr_of ''numeric'', fd_values = ValuesAbsent\<rparr>]\<rparr>
      [\<lparr>data = ustr_of ''12.345'' @ [13, 10], timestamp = t1\<rparr>,
       \<lparr>data = ustr_of ''12.346'' @ [13, 10], timestamp = t2\<rparr>,
       \<lparr>data = ustr_of ''12.344'' @ [13, 10], timestamp = t3\<rparr>]) = 98"
proof -
  let ?f = "\<lparr>fd_name = ustr_of ''weight'', fd_start = 0, fd_length = 6,
             fd_field_type = ustr_of ''numeric'', fd_values = ValuesAbsent\<rparr>"
  let ?d = "[\<lparr>data = ustr_of ''12.345'' @ [13, 10], timestamp = t1\<rparr>,
       \<lparr>data = ustr_of ''12.346'' @ [13, 10], timestamp = t2\<rparr>,
       \<lparr>data = ustr_of ''12.344'' @ [13, 10], timestamp = t3\<rparr>]"
  let ?t = "\<lparr>td_template_id = tid, td_name = nm, td_delimiter = dl, td_fields = Some [?f]\<rparr>"
  have num: "py_float_ok (ustr_of ''12.345'')" "py_float_ok (ustr_of ''12.346'')"
    "py_float_ok (ustr_of ''12.344'')"
    by (simp_all add: ustr_of_def py_float_ok_def py_strip_def py_isspace_def float_number_def
        float_exponent_def digitpart_def is_digit_def ascii_lower_def)
  have strip: "py_strip (ustr_of ''12.345'') = ustr_of ''12.345''"
    "py_strip (ustr_of ''12.346'') = ustr_of ''12.346''"
    "py_strip (ustr_of ''12.344'') = ustr_of ''12.344''"
    by (simp_all add: ustr_of_def py_strip_def py_isspace_def)
  have slice: "py_slice ((ustr_of ''12.345'' @ [13, 10])) 0 6 = ustr_of ''12.345''"
    "py_slice ((ustr_of ''12.346'' @ [13, 10])) 0 6 = ustr_of ''12.346''"
    "py_slice ((ustr_of ''12.344'' @ [13, 10])) 0 6 = ustr_of ''12.344''"
    by (simp_all add: ustr_of_def py_slice_def py_index_def)
  have len: "length ((ustr_of ''12.345'' @ [13, 10])) = 8" "length ((ustr_of ''12.346'' @ [13, 10])) = 8"
    "length ((ustr_of ''12.344'' @ [13, 10])) = 8"
    by (simp_all add: ustr_of_def)
  have len6: "length (ustr_of ''12.345'') = 6" "length (ustr_of ''12.346'') = 6"
    "length (ustr_of ''12.344'') = 6"
    by (simp_all add: ustr_of_def)
  have parse: "\<exists>m. parse_with_template ((ustr_of ''12.345'' @ [13, 10])) [?f] = ParseSuccess m"
    "\<exists>m. parse_with_template ((ustr_of ''12.346'' @ [13, 10])) [?f] = ParseSuccess m"
    "\<exists>m. parse_with_template ((ustr_of ''12.344'' @ [13, 10])) [?f] = ParseSuccess m"
    by (simp_all add: parse_with_template_def Let_def len6 slice strip num)
  then obtain m1 m2 m3 where m:
    "parse_with_template ((ustr_of ''12.345'' @ [13, 10])) [?f] = ParseSuccess m1"
    "parse_with_template ((ustr_of ''12.346'' @ [13, 10])) [?f] = ParseSuccess m2"
    "parse_with_template ((ustr_of ''12.344'' @ [13, 10])) [?f] = ParseSuccess m3"
    by blast
  have cnt: "count_parses [?f] ?d (0, 0, []) = (3, 3, [])"
    by (simp add: m)
  have rate: "parse_success_rate 3 3 = 100" by (simp add: parse_success_rate_def)
  have cons: "check_data_consistency ?d [?f] = 90"
    by (simp add: check_data_consistency_def len6)
  have nonblank: "py_strip ((ustr_of ''12.345'' @ [13, 10])) \<noteq> []"
    "py_strip ((ustr_of ''12.346'' @ [13, 10])) \<noteq> []" "py_strip ((ustr_of ''12.344'' @ [13, 10])) \<noteq> []"
    by (simp_all add: ustr_of_def py_strip_def py_isspace_def)
  have fmt: "check_format_characteristics ?d ?t = 100"
    by (simp add: check_format_characteristics_def nonblank)
  have conf: "confidence (analyze_template_match ?t ?d) = 98"
    by (simp add: analyze_template_match_def cnt rate cons fmt weighted_confidence_def
        del: count_parses.simps)
  have s: "successful_parses (analyze_template_match ?t ?d) = 3"
    and a: "total_attempts (analyze_template_match ?t ?d) = 3"
    by (simp_all add: analyze_template_match_def Let_def cnt del: count_parses.simps)
  from s a rate cons fmt conf show ?thesis by blast
qed

subsection \<open>An empty sampling window\<close>

text \<open>
  Claim C6 (empty sample window).  For every template, when \<open>test_template\<close> reaches its
  sampling window (the link is connected, or the connection attempt succeeds) and
  \<open>get_recent_data\<close> returns no frame for it, the call returns the failure result with
  confidence 0 and the error \<open>No data received\<close>; and whenever the window yields no frame
  the result has \<open>success = False\<close> and confidence 0.
\<close>

theorem test_template_no_data:
  "fst (get_recent_data now (test_duration + 1) captured) = [] \<Longrightarrow>
   (connected l \<or> ok1 \<longrightarrow>
      test_template ok1 ok2 captured now l template_data test_duration
        = TestFailure 0 (ustr_of ''No data received''))
   \<and> \<not> result_success (test_template ok1 ok2 captured now l template_data test_duration)
   \<and> result_confidence (test_template ok1 ok2 captured now l template_data test_duration) = 0"
  by (auto simp: test_template_def connect_def start_data_capture_def clear_buffer_def Let_def
      split: prod.splits if_splits)

theorem test_template_no_data_witness:
  "fst (get_recent_data 100 (5 + 1) [\<lparr>data = ustr_of ''12.5'', timestamp = 90\<rparr>]) = []
   \<and> connected \<lparr>connected = True, running = False, data_buffer = []\<rparr>
   \<and> test_template False False [\<lparr>data = ustr_of ''12.5'', timestamp = 90\<rparr>] 100
        \<lparr>connected = True, running = False, data_buffer = []\<rparr>
        \<lparr>td_template_id = None, td_name = None, td_delimiter = None, td_fields = None\<rparr> 5
      = TestFailure 0 (ustr_of ''No data received'')"
proof -
  have w: "fst (get_recent_data 100 (5 + 1) [\<lparr>data = ustr_of ''12.5'', timestamp = 90\<rparr>]) = []"
    by (simp add: get_recent_data_def)
  from test_template_no_data [OF w, of "\<lparr>connected = True, running = False, data_buffer = []\<rparr>"
      False False "\<lparr>td_template_id = None, td_name = None, td_delimiter = None, td_fields = None\<rparr>"] w
  show ?thesis by simp
qed

section \<open>Properties of the discovery engine\<close>

text \<open>
  Claim C5 as stated fails in its fallback: when the first recorded step holds no frame,
  \<open>_analyze_and_create_template\<close> returns \<open>None\<close> before the field is built, and
  \<open>_finalize_discovery\<close> reports failure; no template with a field of length 10 arises.
\<close>

theorem no_template_without_frames:
  "analyze_and_create_template
     [\<lparr>step_number = 1, action = ustr_of ''baseline'', expected_weight = Some 0,
       captured_data = [], step_timestamp = 0\<rparr>]
     Map.empty 1700000000 (ustr_of ''2023-11-14 22:13:20'') 1700000000 = Inr None
   \<and> finalize_discovery
     [\<lparr>step_number = 1, action = ustr_of ''baseline'', expected_weight = Some 0,
       captured_data = [], step_timestamp = 0\<rparr>]
     Map.empty 1700000000 (ustr_of ''2023-11-14 22:13:20'') 1700000000 = Inr (False, None)"
  by (simp add: analyze_and_create_template_def finalize_discovery_def)

text \<open>
  Claim C5 (synthesis), amended: when the first recorded step holds a frame, the
  synthesized template has exactly one field, of type numeric, with start 0 and the
  length of that step's first frame; its delimiter is the escaped text of CR LF (which
  the validator turns into the two characters), its encoding is ASCII and its confidence
  score is the stored overall confidence, 0 if none was computed.  When the first
  recorded step holds no frame, no template is synthesized.
\<close>

theorem synthesized_template_shape:
  "(captured_data step0 = frame0 # frames \<longrightarrow>
      (\<exists>t fld. analyze_and_create_template (step0 # later) scores time_now date_text utc_now = Inr (Some t)
         \<and> finalize_discovery (step0 # later) scores time_now date_text utc_now = Inr (True, Some t)
         \<and> pt_fields t = [fld]
         \<and> pf_field_type fld = ustr_of ''numeric''
         \<and> pf_start fld = 0
         \<and> pf_length fld = int (length frame0)
         \<and> pt_delimiter t = escaped_crlf
         \<and> template_delimiter \<lparr>td_template_id = Some (pt_template_id t), td_name = Some (pt_name t),
              td_delimiter = Some (pt_delimiter t), td_fields = None\<rparr> = [13, 10]
         \<and> pt_encoding t = ustr_of ''ASCII''
         \<and> pt_confidence_score t = (case scores (ustr_of ''overall'') of None \<Rightarrow> 0 | Some v \<Rightarrow> v)))
   \<and> (captured_data step0 = [] \<longrightarrow>
        analyze_and_create_template (step0 # later) scores time_now date_text utc_now = Inr None
        \<and> finalize_discovery (step0 # later) scores time_now date_text utc_now = Inr (False, None))"
  by (simp add: analyze_and_create_template_def finalize_discovery_def template_delimiter_def
      escaped_crlf_def)

theorem synthesized_template_shape_witness:
  "captured_data \<lparr>step_number = 1, action = ustr_of ''baseline'', expected_weight = Some 0,
       captured_data = [ustr_of ''  12.345 kg'', ustr_of ''  12.346 kg''], step_timestamp = 0\<rparr>
     = ustr_of ''  12.345 kg'' # [ustr_of ''  12.346 kg'']
   \<and> (\<exists>t. analyze_and_create_template
        [\<lparr>step_number = 1, action = ustr_of ''baseline'', expected_weight = Some 0,
          captured_data = [ustr_of ''  12.345 kg'', ustr_of ''  12.346 kg''], step_timestamp = 0\<rparr>]
        [ustr_of ''overall'' \<mapsto> 50] 1700000000 (ustr_of ''2023-11-14 22:13:20'') 1700000000 = Inr (Some t)
      \<and> map pf_length (pt_fields t) = [11] \<and> pt_confidence_score t = 50)"
proof -
  let ?s = "\<lparr>step_number = 1, action = ustr_of ''baseline'', expected_weight = Some 0,
       captured_data = [ustr_of ''  12.345 kg'', ustr_of ''  12.346 kg''], step_timestamp = 0\<rparr>"
  have c: "captured_data ?s = ustr_of ''  12.345 kg'' # [ustr_of ''  12.346 kg'']" by simp
  have l: "int (length (ustr_of ''  12.345 kg'')) = 11" by (simp add: ustr_of_def)
  from synthesized_template_shape [of ?s "ustr_of ''  12.345 kg''" "[ustr_of ''  12.346 kg'']" "[]"
      "[ustr_of ''overall'' \<mapsto> 50]" 1700000000 "ustr_of ''2023-11-14 22:13:20''" 1700000000] c
  obtain t fld where
    "analyze_and_create_template [?s] [ustr_of ''overall'' \<mapsto> 50] 1700000000
       (ustr_of ''2023-11-14 22:13:20'') 1700000000 = Inr (Some t)"
    "pt_fields t = [fld]" "pf_length fld = int (length (ustr_of ''  12.345 kg''))"
    "pt_confidence_score t = 50"
    by auto
  with l c show ?thesis by auto
qed

end
